theory Spec2Isabelle
  imports Complex_Main "HOL-Library.Word"
begin

section \<open>Live audio session service\<close>

text \<open>
  A shallow embedding of \<^verbatim>\<open>src/services/liveSessionService.ts\<close>: the PCM codec
  (\<^verbatim>\<open>pcmToB64\<close>, \<^verbatim>\<open>b64ToPcm\<close>), the playback scheduler (\<^verbatim>\<open>playAudioChunk\<close>),
  the connection retry loop (\<^verbatim>\<open>connectWithRetry\<close>) and the session life cycle
  (\<^verbatim>\<open>startSession\<close>, \<^verbatim>\<open>stopSession\<close>, the \<^verbatim>\<open>onopen\<close>, \<^verbatim>\<open>onmessage\<close> and
  \<^verbatim>\<open>onclose\<close> callbacks).

  Numbers are JavaScript doubles in the source. They are modelled as \<^typ>\<open>real\<close>. For the
  codec this is exact on every 32-bit float in \<open>[-1, 1]\<close>: the products \<open>s * 0x8000\<close> and
  \<open>s * 0x7FFF\<close> have at most 39 significant bits, and \<open>k / 32768\<close> for a 16-bit \<open>k\<close> is a
  32-bit float, so no operation of the codec rounds. For the scheduler the sums of start
  times and durations are taken without rounding.
\<close>

subsection \<open>Errors\<close>

text \<open>
  The exceptions that can leave a function of the service: the platform's
  \<^verbatim>\<open>InvalidCharacterError\<close> (\<^verbatim>\<open>atob\<close> on a string that is not base64),
  \<^verbatim>\<open>RangeError\<close> (an \<^verbatim>\<open>Int16Array\<close> view on a buffer of odd byte length),
  \<^verbatim>\<open>TypeError\<close> (a method call on \<^verbatim>\<open>null\<close>), \<^verbatim>\<open>NotSupportedError\<close>
  (\<^verbatim>\<open>createBuffer\<close> with length 0), \<^verbatim>\<open>NotAllowedError\<close> (microphone denied), and
  the error of the \<open>k\<close>-th failed call of \<^verbatim>\<open>ai.live.connect\<close>.
\<close>

datatype error =
    InvalidCharacterError
  | RangeError
  | TypeError
  | NotSupportedError
  | NotAllowedError
  | ConnectError nat

subsection \<open>PCM codec\<close>

text \<open>
  Storing a number into an \<^verbatim>\<open>Int16Array\<close> applies the language's \<^verbatim>\<open>ToInt16\<close>:
  truncation towards zero, then reduction modulo \<open>2 ^ 16\<close> into the signed range.
\<close>

definition trunc :: "real \<Rightarrow> int" where
  "trunc x = (if x < 0 then \<lceil>x\<rceil> else \<lfloor>x\<rfloor>)"

definition toInt16 :: "real \<Rightarrow> 16 word" where
  "toInt16 x = word_of_int (trunc x)"

definition float_to_int16 :: "real \<Rightarrow> 16 word" where
  "float_to_int16 x =
     (let s = max (- 1) (min 1 x)
      in toInt16 (if s < 0 then s * 32768 else s * 32767))"

text \<open>
  \<^verbatim>\<open>new Uint8Array(int16Array.buffer)\<close> and \<^verbatim>\<open>new Int16Array(bytes.buffer)\<close> view the
  same memory as bytes and as 16-bit integers, low byte first. The second view exists
  only for an even number of bytes (the caller checks; see \<open>b64ToPcm\<close>).
\<close>

definition int16_bytes :: "16 word \<Rightarrow> 8 word list" where
  "int16_bytes w = [ucast w, ucast (drop_bit 8 w)]"

fun int16_view :: "8 word list \<Rightarrow> 16 word list" where
  "int16_view (lo # hi # rest) = word_cat hi lo # int16_view rest"
| "int16_view _ = []"

definition fromCharCode :: "8 word \<Rightarrow> char" where
  "fromCharCode b = char_of (unat b)"

definition charCodeAt :: "char \<Rightarrow> 8 word" where
  "charCodeAt c = of_nat (of_char c)"

text \<open>
  \<^verbatim>\<open>btoa\<close> and \<^verbatim>\<open>atob\<close> are the platform's base64 functions on binary strings (one
  character per byte). \<^verbatim>\<open>atob\<close> is the forgiving decoder: it drops ASCII whitespace,
  drops one or two trailing \<open>=\<close> when the length is a multiple of 4, and fails on a
  remaining length of \<open>1\<close> modulo 4 or on a character outside the alphabet.
\<close>

definition b64char :: "nat \<Rightarrow> char" where
  "b64char i =
     (if i < 26 then char_of (65 + i)
      else if i < 52 then char_of (71 + i)
      else if i < 62 then char_of (i - 4)
      else if i = 62 then CHR ''+'' else CHR ''/'')"

definition b64index :: "char \<Rightarrow> nat option" where
  "b64index c =
     (let n = (of_char c :: nat)
      in if 65 \<le> n \<and> n \<le> 90 then Some (n - 65)
         else if 97 \<le> n \<and> n \<le> 122 then Some (n - 71)
         else if 48 \<le> n \<and> n \<le> 57 then Some (n + 4)
         else if n = 43 then Some 62
         else if n = 47 then Some 63
         else None)"

fun bytes_to_sextets :: "nat list \<Rightarrow> nat list" where
  "bytes_to_sextets (a # b # c # rest) =
     [a div 4, (a mod 4) * 16 + b div 16, (b mod 16) * 4 + c div 64, c mod 64]
       @ bytes_to_sextets rest"
| "bytes_to_sextets [a, b] = [a div 4, (a mod 4) * 16 + b div 16, (b mod 16) * 4]"
| "bytes_to_sextets [a] = [a div 4, (a mod 4) * 16]"
| "bytes_to_sextets [] = []"

definition padding :: "nat \<Rightarrow> string" where
  "padding n = replicate ((3 - n mod 3) mod 3) CHR ''=''"

definition btoa :: "string \<Rightarrow> string" where
  "btoa binary =
     map b64char (bytes_to_sextets (map of_char binary)) @ padding (length binary)"

definition is_ascii_whitespace :: "char \<Rightarrow> bool" where
  "is_ascii_whitespace c =
     (let n = (of_char c :: nat) in n = 9 \<or> n = 10 \<or> n = 12 \<or> n = 13 \<or> n = 32)"

definition strip_padding :: "string \<Rightarrow> string" where
  "strip_padding d =
     (if length d mod 4 = 0 \<and> d \<noteq> [] \<and> last d = CHR ''=''
      then (let d1 = butlast d
            in if d1 \<noteq> [] \<and> last d1 = CHR ''='' then butlast d1 else d1)
      else d)"

fun sextets_to_bytes :: "nat list \<Rightarrow> nat list" where
  "sextets_to_bytes (a # b # c # d # rest) =
     [a * 4 + b div 16, (b mod 16) * 16 + c div 4, (c mod 4) * 64 + d]
       @ sextets_to_bytes rest"
| "sextets_to_bytes [a, b, c] = [a * 4 + b div 16, (b mod 16) * 16 + c div 4]"
| "sextets_to_bytes [a, b] = [a * 4 + b div 16]"
| "sextets_to_bytes _ = []"

definition atob :: "string \<Rightarrow> error + string" where
  "atob base64 =
     (let d = strip_padding (filter (\<lambda>c. \<not> is_ascii_whitespace c) base64)
      in if length d mod 4 = 1 then Inl InvalidCharacterError
         else (case those (map b64index d) of
                 None \<Rightarrow> Inl InvalidCharacterError
               | Some ss \<Rightarrow> Inr (map char_of (sextets_to_bytes ss))))"

text \<open>The two codec functions of the service.\<close>

definition pcmToB64 :: "real list \<Rightarrow> string" where
  "pcmToB64 float32Array =
     (let int16Array = map float_to_int16 float32Array;
          bytes = concat (map int16_bytes int16Array);
          binary = map fromCharCode bytes
      in btoa binary)"

definition b64ToPcm :: "string \<Rightarrow> error + real list" where
  "b64ToPcm base64 =
     (case atob base64 of
        Inl e \<Rightarrow> Inl e
      | Inr binary \<Rightarrow>
          (let bytes = map charCodeAt binary
           in if odd (length bytes) then Inl RangeError
              else Inr (map (\<lambda>w. of_int (sint w) / 32768) (int16_view bytes))))"

subsection \<open>State of the service and of its platform\<close>

text \<open>
  The fields of \<^verbatim>\<open>class LiveSessionService\<close>. A platform object (audio context, audio
  node, media stream, promise, session) is a handle; \<^verbatim>\<open>null\<close> is \<open>None\<close>.
\<close>

type_synonym handle = nat

record service =
  inputContext :: "handle option"
  outputContext :: "handle option"
  inputSource :: "handle option"
  processor :: "handle option"
  currentStream :: "handle option"
  nextStartTime :: real
  isConnected :: bool
  sessionPromise :: "handle option"

text \<open>
  What the service does to its platform and to its caller, in order. \<open>OnAudioActivity\<close>
  carries the time (in ms) at which the callback runs; \<open>SourceStart c t d\<close> is
  \<^verbatim>\<open>source.start(t)\<close> of a buffer of duration \<open>d\<close> on the output context \<open>c\<close>.
\<close>

datatype event =
    NewAudioContext handle nat
  | ResumeContext handle
  | CloseContext handle
  | GetUserMedia handle
  | StopTracks handle
  | CreateMediaStreamSource handle
  | CreateScriptProcessor handle
  | ConnectNode handle
  | Disconnect handle
  | LiveConnect nat
  | Sleep nat
  | ConsoleLog
  | ConsoleWarn
  | ConsoleError
  | OnError error
  | OnAudioActivity nat bool
  | SourceStart handle real real

text \<open>
  The service together with its platform: the next unused handle, the number of calls of
  \<^verbatim>\<open>ai.live.connect\<close> made so far, the sessions that were opened and that nobody
  closed, the pending \<^verbatim>\<open>setTimeout(() => onAudioActivity(false), 500)\<close> timers by the
  time they are due, and the events so far.
\<close>

record world =
  svc :: service
  fresh :: handle
  attempts :: nat
  openSessions :: "handle list"
  timers :: "nat list"
  trace :: "event list"

definition init_service :: service where
  "init_service =
     \<lparr>inputContext = None, outputContext = None, inputSource = None, processor = None,
      currentStream = None, nextStartTime = 0, isConnected = False, sessionPromise = None\<rparr>"

definition init_world :: world where
  "init_world =
     \<lparr>svc = init_service, fresh = 0, attempts = 0, openSessions = [], timers = [], trace = []\<rparr>"

definition INPUT_SAMPLE_RATE :: nat where
  "INPUT_SAMPLE_RATE = 16000"

definition OUTPUT_SAMPLE_RATE :: nat where
  "OUTPUT_SAMPLE_RATE = 24000"

definition emit :: "event \<Rightarrow> world \<Rightarrow> world" where
  "emit ev w = w\<lparr>trace := trace w @ [ev]\<rparr>"

definition upd :: "(service \<Rightarrow> service) \<Rightarrow> world \<Rightarrow> world" where
  "upd f w = w\<lparr>svc := f (svc w)\<rparr>"

definition alloc :: "world \<Rightarrow> handle \<times> world" where
  "alloc w = (fresh w, w\<lparr>fresh := Suc (fresh w)\<rparr>)"

text \<open>
  What the service cannot decide: whether the platform creates the audio contexts
  suspended, whether the microphone is granted, whether the \<open>k\<close>-th call of
  \<^verbatim>\<open>ai.live.connect\<close> (counted over the life of the service) succeeds, whether the user
  calls \<^verbatim>\<open>stopSession\<close> while the retry loop sleeps after the \<open>k\<close>-th call, and whether
  the caller passed the optional \<^verbatim>\<open>onError\<close>.
\<close>

record env =
  input_suspended :: bool
  output_suspended :: bool
  mic_granted :: bool
  connect_ok :: "nat \<Rightarrow> bool"
  stop_during_backoff :: "nat \<Rightarrow> bool"
  has_onError :: bool

text \<open>
  For one call of \<^verbatim>\<open>playAudioChunk\<close>: whether the output context is suspended, whether
  \<^verbatim>\<open>stopSession\<close> runs while the call awaits \<^verbatim>\<open>resume()\<close>, and the value of
  \<^verbatim>\<open>outputContext.currentTime\<close>.
\<close>

record playenv =
  suspended :: bool
  stop_during_resume :: bool
  currentTime :: real

subsection \<open>stopSession\<close>

text \<open>
  Every call that could throw is inside \<^verbatim>\<open>try { } catch (e) {}\<close> in the source, and
  \<^verbatim>\<open>track.stop()\<close> does not throw, so \<open>stopSession\<close> has no error result. It does not
  touch \<^verbatim>\<open>sessionPromise\<close>, the session, a pending timer or a scheduled source.
\<close>

definition stopSession :: "world \<Rightarrow> world" where
  "stopSession w0 =
     (let w1 = upd (\<lambda>s. s\<lparr>isConnected := False\<rparr>) w0;
          w2 = (case inputSource (svc w1) of
                  None \<Rightarrow> w1
                | Some h \<Rightarrow> upd (\<lambda>s. s\<lparr>inputSource := None\<rparr>) (emit (Disconnect h) w1));
          w3 = (case processor (svc w2) of
                  None \<Rightarrow> w2
                | Some h \<Rightarrow> upd (\<lambda>s. s\<lparr>processor := None\<rparr>) (emit (Disconnect h) w2));
          w4 = (case currentStream (svc w3) of
                  None \<Rightarrow> w3
                | Some h \<Rightarrow> upd (\<lambda>s. s\<lparr>currentStream := None\<rparr>) (emit (StopTracks h) w3));
          w5 = (case inputContext (svc w4) of
                  None \<Rightarrow> w4
                | Some h \<Rightarrow> upd (\<lambda>s. s\<lparr>inputContext := None\<rparr>) (emit (CloseContext h) w4));
          w6 = (case outputContext (svc w5) of
                  None \<Rightarrow> w5
                | Some h \<Rightarrow> upd (\<lambda>s. s\<lparr>outputContext := None\<rparr>) (emit (CloseContext h) w5))
      in upd (\<lambda>s. s\<lparr>nextStartTime := 0\<rparr>) w6)"

subsection \<open>Connection callbacks and the retry loop\<close>

definition startAudioInput :: "world \<Rightarrow> world" where
  "startAudioInput w =
     (if inputContext (svc w) = None \<or> currentStream (svc w) = None
         \<or> sessionPromise (svc w) = None
      then w
      else (let (src, w1) = alloc w;
                w2 = upd (\<lambda>s. s\<lparr>inputSource := Some src\<rparr>) (emit (CreateMediaStreamSource src) w1);
                (prc, w3) = alloc w2;
                w4 = upd (\<lambda>s. s\<lparr>processor := Some prc\<rparr>) (emit (CreateScriptProcessor prc) w3)
            in emit (ConnectNode prc) (emit (ConnectNode src) w4)))"

definition onopen :: "world \<Rightarrow> world" where
  "onopen w = startAudioInput (upd (\<lambda>s. s\<lparr>isConnected := True\<rparr>) (emit ConsoleLog w))"

text \<open>\<open>onclose h\<close>: the remote end closed session \<open>h\<close>.\<close>

definition onclose :: "handle \<Rightarrow> world \<Rightarrow> world" where
  "onclose h w =
     (upd (\<lambda>s. s\<lparr>isConnected := False\<rparr>) (emit ConsoleLog w))
       \<lparr>openSessions := removeAll h (openSessions w)\<rparr>"

text \<open>
  One call of \<open>connectWithRetry\<close> with its recursive calls. The \<^verbatim>\<open>await\<close> of the
  backoff timer is where other code can run; the only such code the model admits is a
  call of \<open>stopSession\<close>. Nothing in the loop reads a field of the service.
\<close>

function connectWithRetry :: "env \<Rightarrow> nat \<Rightarrow> nat \<Rightarrow> world \<Rightarrow> (error + handle) \<times> world" where
  "connectWithRetry e retries delay w =
     (let k = attempts w;
          w1 = (emit (LiveConnect k) w)\<lparr>attempts := Suc k\<rparr>
      in if connect_ok e k
         then (let (session, w2) = alloc w1
               in (Inr session, onopen (w2\<lparr>openSessions := openSessions w2 @ [session]\<rparr>)))
         else if retries > 0
              then (let w2 = emit (Sleep delay) (emit ConsoleWarn w1);
                        w3 = (if stop_during_backoff e k then stopSession w2 else w2)
                    in connectWithRetry e (retries - 1) (delay * 2) w3)
              else (Inl (ConnectError k), w1))"
  by pat_completeness auto
termination
  by (relation "measure (\<lambda>(e, retries, delay, w). retries)") auto

declare connectWithRetry.simps [simp del]

subsection \<open>startSession\<close>

text \<open>The \<^verbatim>\<open>catch\<close> block of \<open>startSession\<close>.\<close>

definition start_failed :: "env \<Rightarrow> error \<Rightarrow> world \<Rightarrow> world" where
  "start_failed e err w =
     (let w1 = emit ConsoleError w;
          w2 = (if has_onError e then emit (OnError err) w1 else w1)
      in stopSession w2)"

text \<open>
  The two failures the model admits inside the \<^verbatim>\<open>try\<close> block are the rejection of
  \<^verbatim>\<open>getUserMedia\<close> and the rejection of \<open>connectWithRetry\<close>. The promise of
  \<open>connectWithRetry\<close> is stored in \<^verbatim>\<open>sessionPromise\<close> before any callback of the
  connection can run.
\<close>

definition startSession :: "env \<Rightarrow> world \<Rightarrow> world" where
  "startSession e w =
     (if isConnected (svc w) then w
      else
        (let (ic, w1) = alloc w;
             w2 = upd (\<lambda>s. s\<lparr>inputContext := Some ic\<rparr>)
                    (emit (NewAudioContext ic INPUT_SAMPLE_RATE) w1);
             (oc, w3) = alloc w2;
             w4 = upd (\<lambda>s. s\<lparr>outputContext := Some oc\<rparr>)
                    (emit (NewAudioContext oc OUTPUT_SAMPLE_RATE) w3);
             w5 = (if input_suspended e then emit (ResumeContext ic) w4 else w4);
             w6 = (if output_suspended e then emit (ResumeContext oc) w5 else w5)
         in if \<not> mic_granted e then start_failed e NotAllowedError w6
            else
              (let (stream, w7) = alloc w6;
                   w8 = upd (\<lambda>s. s\<lparr>currentStream := Some stream\<rparr>) (emit (GetUserMedia stream) w7);
                   (p, w9) = alloc w8;
                   w10 = upd (\<lambda>s. s\<lparr>sessionPromise := Some p\<rparr>) w9;
                   (r, w11) = connectWithRetry e 3 1000 w10
               in case r of
                    Inl err \<Rightarrow> start_failed e err w11
                  | Inr session \<Rightarrow> w11)))"

subsection \<open>Playback and the message handler\<close>

text \<open>
  \<open>playAudioChunk\<close> returns the exception that leaves it, if any, and the world. After
  the \<^verbatim>\<open>await\<close> of \<^verbatim>\<open>resume()\<close> the source reads \<^verbatim>\<open>this.outputContext\<close> again
  without a check: \<open>TypeError\<close> when \<open>stopSession\<close> ran in between.
  \<^verbatim>\<open>audioBuffer.duration\<close> is the platform's \<open>length / sampleRate\<close>.
\<close>

definition playAudioChunk :: "playenv \<Rightarrow> string \<Rightarrow> world \<Rightarrow> error option \<times> world" where
  "playAudioChunk pe base64Audio w =
     (case outputContext (svc w) of
        None \<Rightarrow> (None, w)
      | Some c \<Rightarrow>
          (let w1 = (if suspended pe
                     then (let wr = emit (ResumeContext c) w
                           in if stop_during_resume pe then stopSession wr else wr)
                     else w)
           in case b64ToPcm base64Audio of
                Inl err \<Rightarrow> (Some err, w1)
              | Inr audioData \<Rightarrow>
                  (case outputContext (svc w1) of
                     None \<Rightarrow> (Some TypeError, w1)
                   | Some c' \<Rightarrow>
                       if length audioData = 0 then (Some NotSupportedError, w1)
                       else
                         (let duration = real (length audioData) / real OUTPUT_SAMPLE_RATE;
                              w2 = (if nextStartTime (svc w1) < currentTime pe
                                    then upd (\<lambda>s. s\<lparr>nextStartTime := currentTime pe\<rparr>) w1
                                    else w1);
                              w3 = emit (SourceStart c' (nextStartTime (svc w2)) duration) w2
                          in (None, upd (\<lambda>s. s\<lparr>nextStartTime := nextStartTime s + duration\<rparr>) w3)))))"

text \<open>
  The \<^verbatim>\<open>onmessage\<close> callback at time \<open>t\<close> (ms). The message is reduced to what the
  handler reads of it: the string at
  \<^verbatim>\<open>serverContent?.modelTurn?.parts?.[0]?.inlineData?.data\<close>, \<open>None\<close> when that is
  undefined. An empty string is falsy. The handler has no \<^verbatim>\<open>try\<close>: an exception of
  \<open>playAudioChunk\<close> leaves it before \<^verbatim>\<open>setTimeout\<close> is reached.
\<close>

definition onmessage :: "playenv \<Rightarrow> nat \<Rightarrow> string option \<Rightarrow> world \<Rightarrow> error option \<times> world" where
  "onmessage pe t message w =
     (case message of
        None \<Rightarrow> (None, w)
      | Some base64Audio \<Rightarrow>
          if base64Audio = [] then (None, w)
          else (let w1 = emit (OnAudioActivity t True) w;
                    (r, w2) = playAudioChunk pe base64Audio w1
                in case r of
                     Some err \<Rightarrow> (Some err, w2)
                   | None \<Rightarrow> (None, w2\<lparr>timers := timers w2 @ [t + 500]\<rparr>)))"

text \<open>
  The platform runs every pending timer that is due by time \<open>T\<close>, each at the time it is
  due. The service never calls \<^verbatim>\<open>clearTimeout\<close>.
\<close>

definition run_timers :: "nat \<Rightarrow> world \<Rightarrow> world" where
  "run_timers T w =
     w\<lparr>timers := filter (\<lambda>d. T < d) (timers w),
       trace := trace w @ map (\<lambda>d. OnAudioActivity d False) (filter (\<lambda>d. d \<le> T) (timers w))\<rparr>"

subsection \<open>Reading a trace\<close>

fun acquired :: "event \<Rightarrow> handle option" where
  "acquired (NewAudioContext h r) = Some h"
| "acquired (GetUserMedia h) = Some h"
| "acquired (CreateMediaStreamSource h) = Some h"
| "acquired (CreateScriptProcessor h) = Some h"
| "acquired _ = None"

fun released :: "event \<Rightarrow> handle option" where
  "released (CloseContext h) = Some h"
| "released (StopTracks h) = Some h"
| "released (Disconnect h) = Some h"
| "released _ = None"

text \<open>
  The contexts, streams and nodes a trace acquires, those it releases, and those it
  acquires and does not release.
\<close>

definition acquired_in :: "event list \<Rightarrow> handle set" where
  "acquired_in tr = set (List.map_filter acquired tr)"

definition released_in :: "event list \<Rightarrow> handle set" where
  "released_in tr = set (List.map_filter released tr)"


fun is_OnError :: "event \<Rightarrow> bool" where
  "is_OnError (OnError err) = True"
| "is_OnError _ = False"



fun scheduled_source :: "event \<Rightarrow> (real \<times> real) option" where
  "scheduled_source (SourceStart c t d) = Some (t, d)"
| "scheduled_source _ = None"

fun activity :: "event \<Rightarrow> (nat \<times> bool) option" where
  "activity (OnAudioActivity t b) = Some (t, b)"
| "activity _ = None"

fun is_console :: "event \<Rightarrow> bool" where
  "is_console ConsoleLog = True"
| "is_console ConsoleWarn = True"
| "is_console ConsoleError = True"
| "is_console _ = False"

definition scheduled :: "event list \<Rightarrow> (real \<times> real) list" where
  "scheduled tr = List.map_filter scheduled_source tr"

definition activity_log :: "event list \<Rightarrow> (nat \<times> bool) list" where
  "activity_log tr = List.map_filter activity tr"

text \<open>The events a step added: those of \<open>w'\<close> after those of \<open>w\<close>.\<close>

definition new_events :: "world \<Rightarrow> world \<Rightarrow> event list" where
  "new_events w w' = drop (length (trace w)) (trace w')"

definition idle :: "service \<Rightarrow> bool" where
  "idle s \<longleftrightarrow>
     inputContext s = None \<and> outputContext s = None \<and> inputSource s = None \<and>
     processor s = None \<and> currentStream s = None \<and> \<not> isConnected s \<and> nextStartTime s = 0"

subsection \<open>Auxiliary definitions for the statements\<close>

text \<open>What one sample becomes after \<open>pcmToB64\<close> and \<open>b64ToPcm\<close>.\<close>

definition quantise :: "real \<Rightarrow> real" where
  "quantise x = of_int (sint (float_to_int16 x)) / 32768"

text \<open>
  Scenarios used to instantiate the statements: a platform on which everything succeeds
  at once, a call of \<open>playAudioChunk\<close> on a running output context at device time
  \<open>now\<close>, and the service after one successful \<open>startSession\<close>.
\<close>

definition good_env :: env where
  "good_env =
     \<lparr>input_suspended = False, output_suspended = False, mic_granted = True,
      connect_ok = (\<lambda>k. True), stop_during_backoff = (\<lambda>k. False), has_onError = True\<rparr>"

definition play_at :: "real \<Rightarrow> playenv" where
  "play_at now = \<lparr>suspended = False, stop_during_resume = False, currentTime = now\<rparr>"

definition active_world :: world where
  "active_world = startSession good_env init_world"

text \<open>The release calls of \<open>stopSession\<close> for the fields of a service, in its order.\<close>

definition release_events :: "service \<Rightarrow> event list" where
  "release_events s =
     (case inputSource s of None \<Rightarrow> [] | Some h \<Rightarrow> [Disconnect h]) @
     (case processor s of None \<Rightarrow> [] | Some h \<Rightarrow> [Disconnect h]) @
     (case currentStream s of None \<Rightarrow> [] | Some h \<Rightarrow> [StopTracks h]) @
     (case inputContext s of None \<Rightarrow> [] | Some h \<Rightarrow> [CloseContext h]) @
     (case outputContext s of None \<Rightarrow> [] | Some h \<Rightarrow> [CloseContext h])"

text \<open>The connect calls and backoff sleeps of a trace, in order.\<close>

fun is_retry_event :: "event \<Rightarrow> bool" where
  "is_retry_event (LiveConnect k) = True"
| "is_retry_event (Sleep d) = True"
| "is_retry_event _ = False"

definition retry_events :: "event list \<Rightarrow> event list" where
  "retry_events tr = filter is_retry_event tr"

text \<open>
  The connect calls and sleeps that a retry loop with the given budget and first delay
  makes when the \<open>k\<close>-th call is the next one and \<open>ok\<close> tells which calls succeed, and
  its result when \<open>h\<close> is the handle of the session a success returns.
\<close>

fun retry_plan :: "(nat \<Rightarrow> bool) \<Rightarrow> nat \<Rightarrow> nat \<Rightarrow> nat \<Rightarrow> event list" where
  "retry_plan ok k 0 d = [LiveConnect k]"
| "retry_plan ok k (Suc r) d =
     LiveConnect k # (if ok k then [] else Sleep d # retry_plan ok (Suc k) r (d * 2))"

fun retry_outcome :: "(nat \<Rightarrow> bool) \<Rightarrow> nat \<Rightarrow> nat \<Rightarrow> handle \<Rightarrow> error + handle" where
  "retry_outcome ok k 0 h = (if ok k then Inr h else Inl (ConnectError k))"
| "retry_outcome ok k (Suc r) h = (if ok k then Inr h else retry_outcome ok (Suc k) r h)"

text \<open>
  The number of samples of an encoded chunk (\<open>0\<close> when it does not decode), and the
  chunks \<open>playAudioChunk\<close> schedules whenever there is an output context: they decode to
  at least one sample, and \<open>stopSession\<close> does not run inside the call.
\<close>

definition chunk_samples :: "string \<Rightarrow> nat" where
  "chunk_samples b = (case b64ToPcm b of Inl err \<Rightarrow> 0 | Inr audioData \<Rightarrow> length audioData)"

definition good_chunk :: "playenv \<Rightarrow> string \<Rightarrow> bool" where
  "good_chunk pe b \<longleftrightarrow> \<not> stop_during_resume pe \<and> 0 < chunk_samples b"

text \<open>Chunks played one after the other, each with its own device time.\<close>

fun play_all :: "(playenv \<times> string) list \<Rightarrow> world \<Rightarrow> world" where
  "play_all [] w = w"
| "play_all ((pe, b) # rest) w = play_all rest (snd (playAudioChunk pe b w))"

text \<open>
  The schedule in the words of the specification: each chunk, given as the device time
  \<open>now\<close> at which it is enqueued and its duration, starts at \<open>max now nextStartTime\<close>,
  and the cursor moves to that start plus the duration. The result lists the start and
  the duration of every chunk.
\<close>

fun spec_schedule :: "real \<Rightarrow> (real \<times> real) list \<Rightarrow> (real \<times> real) list" where
  "spec_schedule next [] = []"
| "spec_schedule next ((now, d) # rest) =
     (max now next, d) # spec_schedule (max now next + d) rest"

text \<open>No chunk of a schedule starts before the chunk before it has ended.\<close>

fun no_overlap :: "(real \<times> real) list \<Rightarrow> bool" where
  "no_overlap ((s1, d1) # (s2, d2) # rest) = (s1 + d1 \<le> s2 \<and> no_overlap ((s2, d2) # rest))"
| "no_overlap _ = True"

text \<open>
  Messages with an audio payload delivered one after the other, each at its time \<open>t\<close>;
  the timers due by \<open>t\<close> run before the handler does.
\<close>

fun deliver :: "(nat \<times> playenv \<times> string) list \<Rightarrow> world \<Rightarrow> world" where
  "deliver [] w = w"
| "deliver ((t, pe, b) # ms) w = deliver ms (snd (onmessage pe t (Some b) (run_timers t w)))"

text \<open>
  Two more platforms: one on which the first two calls of \<^verbatim>\<open>ai.live.connect\<close> fail
  and every later call succeeds, and one on which every call fails.
\<close>

definition flaky_env :: env where
  "flaky_env = good_env\<lparr>connect_ok := (\<lambda>k. 2 \<le> k)\<rparr>"

definition dead_env :: env where
  "dead_env = good_env\<lparr>connect_ok := (\<lambda>k. False)\<rparr>"

text \<open>
  The activity callbacks made so far together with those that the pending timers will
  make.
\<close>

definition activity_total :: "world \<Rightarrow> (nat \<times> bool) set" where
  "activity_total w = set (activity_log (trace w)) \<union> (\<lambda>d. (d, False)) ` set (timers w)"



text \<open>
  What is heard of the sources a trace schedules. The platform stops rendering on a
  closed context (\<^verbatim>\<open>close()\<close> suspends the context's time and stops the processing of
  audio). So of a source started at \<open>t\<close> for a duration \<open>d\<close> on a context that the trace
  closes afterwards, at device time \<open>T\<close>, only the part before \<open>T\<close> is heard; a source on
  a context that is not closed is heard in full. The result lists the start and the
  heard duration of every source.
\<close>

fun heard :: "real \<Rightarrow> event list \<Rightarrow> (real \<times> real) list" where
  "heard T [] = []"
| "heard T (SourceStart c t d # tr) =
     (t, if CloseContext c \<in> set tr then max 0 (min (t + d) T - t) else d) # heard T tr"
| "heard T (ev # tr) = heard T tr"

section \<open>The codec\<close>

subsection \<open>Base64 is inverted by its decoder\<close>

lemma b64index_b64char: "i < 64 \<Longrightarrow> b64index (b64char i) = Some i"
  by (simp add: b64index_def b64char_def Let_def) arith

lemma b64char_not_ws: "i < 64 \<Longrightarrow> \<not> is_ascii_whitespace (b64char i)"
  by (simp add: is_ascii_whitespace_def b64char_def Let_def) arith

lemma pad_not_ws: "\<not> is_ascii_whitespace (CHR ''='')"
  by (simp add: is_ascii_whitespace_def)

lemma b64index_pad: "b64index (CHR ''='') = None"
  by (simp add: b64index_def)

lemma b64char_not_pad: "i < 64 \<Longrightarrow> b64char i \<noteq> CHR ''=''"
  using b64index_b64char [of i] b64index_pad by auto

lemma sextets_bound:
  "\<forall>b\<in>set bs. b < 256 \<Longrightarrow> \<forall>s\<in>set (bytes_to_sextets bs). s < 64"
proof (induction bs rule: bytes_to_sextets.induct)
  case (1 a b c rest)
  have "a div 4 < 64" "a mod 4 * 16 + b div 16 < 64" "b mod 16 * 4 + c div 64 < 64" "c mod 64 < 64"
    using 1(2) by simp_all arith+
  then show ?case using 1 by simp
next
  case (2 a b)
  have "a div 4 < 64" "a mod 4 * 16 + b div 16 < 64" "b mod 16 * 4 < 64"
    using 2 by simp_all arith+
  then show ?case by simp
next
  case (3 a)
  have "a div 4 < 64" "a mod 4 * 16 < 64"
    using 3 by simp_all
  then show ?case by simp
qed simp

lemma sextet_arith:
  fixes a b c :: nat
  assumes "b < 256" "c < 256"
  shows "a div 4 * 4 + (a mod 4 * 16 + b div 16) div 16 = a"
    and "(a mod 4 * 16 + b div 16) mod 16 * 16 + (b mod 16 * 4 + c div 64) div 4 = b"
    and "(b mod 16 * 4 + c div 64) mod 4 * 64 + c mod 64 = c"
    and "(a mod 4 * 16 + b div 16) mod 16 * 16 + (b mod 16 * 4) div 4 = b"
proof -
  have b16: "b div 16 < 16" and c64: "c div 64 < 4"
    using assms by simp_all
  have 1: "(a mod 4 * 16 + b div 16) div 16 = a mod 4"
    using b16 by simp
  have 2: "(a mod 4 * 16 + b div 16) mod 16 = b div 16"
    using b16 by simp
  have 3: "(b mod 16 * 4 + c div 64) div 4 = b mod 16"
    using c64 by simp
  have 4: "(b mod 16 * 4 + c div 64) mod 4 = c div 64"
    using c64 by simp
  show "a div 4 * 4 + (a mod 4 * 16 + b div 16) div 16 = a"
    unfolding 1 by simp
  show "(a mod 4 * 16 + b div 16) mod 16 * 16 + (b mod 16 * 4 + c div 64) div 4 = b"
    unfolding 2 3 by simp
  show "(b mod 16 * 4 + c div 64) mod 4 * 64 + c mod 64 = c"
    unfolding 4 by simp
  show "(a mod 4 * 16 + b div 16) mod 16 * 16 + (b mod 16 * 4) div 4 = b"
    unfolding 2 by simp
qed

lemma sextets_roundtrip:
  "\<forall>b\<in>set bs. b < 256 \<Longrightarrow> sextets_to_bytes (bytes_to_sextets bs) = bs"
proof (induction bs rule: bytes_to_sextets.induct)
  case (1 a b c rest)
  then have "b < 256" "c < 256" by simp_all
  from sextet_arith(1-3) [OF this] 1 show ?case by simp
next
  case (2 a b)
  then have "b < 256" by simp
  from sextet_arith(1,4) [OF this this] show ?case by simp
next
  case (3 a)
  show ?case by simp
qed simp

lemma length_sextets_mod:
  "length (bytes_to_sextets bs) mod 4 = (if length bs mod 3 = 0 then 0 else length bs mod 3 + 1)"
proof (induction bs rule: bytes_to_sextets.induct)
  case (1 a b c rest)
  have "length (bytes_to_sextets (a # b # c # rest)) = 4 + length (bytes_to_sextets rest)"
    by simp
  moreover have "length (a # b # c # rest) mod 3 = length rest mod 3"
    by simp
  ultimately show ?case using 1 by simp
qed simp_all

lemma strip_padding_pad:
  assumes ss: "\<forall>s\<in>set ss. s < 64" and len: "(length ss + k) mod 4 = 0" and k: "k \<le> 2"
  shows "strip_padding (map b64char ss @ replicate k (CHR ''='')) = map b64char ss"
proof -
  have nl: "ss \<noteq> [] \<Longrightarrow> last (map b64char ss) \<noteq> CHR ''=''"
    using ss by (simp add: last_map b64char_not_pad)
  from k consider "k = 0" | "k = 1" | "k = 2" by arith
  then show ?thesis
  proof cases
    case 1
    then show ?thesis using nl by (cases "ss = []") (simp_all add: strip_padding_def)
  next
    case 2
    then show ?thesis using nl len
      by (cases "ss = []") (simp_all add: strip_padding_def butlast_append)
  next
    case 3
    have r: "replicate 2 (CHR ''='') = [CHR ''='', CHR ''='']"
      by (simp add: numeral_2_eq_2)
    show ?thesis using len unfolding 3 r
      by (simp add: strip_padding_def butlast_append)
  qed
qed

lemma those_b64index:
  "\<forall>s\<in>set ss. s < 64 \<Longrightarrow> those (map b64index (map b64char ss)) = Some ss"
  by (induction ss) (simp_all add: b64index_b64char)

lemma filter_ws_btoa:
  "\<forall>s\<in>set ss. s < 64 \<Longrightarrow>
   filter (\<lambda>c. \<not> is_ascii_whitespace c) (map b64char ss @ replicate k (CHR ''='')) =
     map b64char ss @ replicate k (CHR ''='')"
  by (simp add: filter_id_conv b64char_not_ws pad_not_ws)

lemma atob_btoa: "atob (btoa binary) = Inr binary"
proof -
  define bs where "bs = map (of_char :: char \<Rightarrow> nat) binary"
  define ss where "ss = bytes_to_sextets bs"
  define k where "k = (3 - length binary mod 3) mod 3"
  have bs: "\<forall>b\<in>set bs. b < 256" by (auto simp: bs_def)
  then have ss: "\<forall>s\<in>set ss. s < 64" unfolding ss_def by (rule sextets_bound)
  have lm: "length ss mod 4 = (if length binary mod 3 = 0 then 0 else length binary mod 3 + 1)"
    unfolding ss_def using length_sextets_mod [of bs] by (simp add: bs_def)
  have k2: "k \<le> 2" unfolding k_def by arith
  have "(length ss mod 4 + k) mod 4 = 0" unfolding lm k_def by (simp split: if_splits)
  then have len: "(length ss + k) mod 4 = 0" by (simp add: mod_add_left_eq)
  have n1: "length ss mod 4 \<noteq> 1" unfolding lm by simp
  have b: "btoa binary = map b64char ss @ replicate k (CHR ''='')"
    by (simp add: btoa_def padding_def ss_def bs_def k_def)
  have "sextets_to_bytes ss = bs" unfolding ss_def using bs by (rule sextets_roundtrip)
  then have dec: "map char_of (sextets_to_bytes ss) = binary"
    by (simp add: bs_def comp_def)
  show ?thesis
    unfolding atob_def b filter_ws_btoa [OF ss] strip_padding_pad [OF ss len k2] Let_def
      those_b64index [OF ss]
    using n1 by (simp add: dec)
qed

subsection \<open>Bytes, 16-bit integers and quantisation\<close>

lemma charCodeAt_fromCharCode: "charCodeAt (fromCharCode b) = b"
proof -
  have "unat b < 256" using unsigned_less [of b, where 'a = nat] by simp
  then show ?thesis by (simp add: charCodeAt_def fromCharCode_def)
qed

lemma word_cat_bytes: "word_cat (ucast (drop_bit 8 w) :: 8 word) (ucast w :: 8 word) = (w :: 16 word)"
  by (rule bit_word_eqI) (auto simp add: bit_simps)

lemma int16_view_bytes: "int16_view (concat (map int16_bytes ws)) = ws"
  by (induction ws) (simp_all add: int16_bytes_def word_cat_bytes)

lemma length_int16_bytes: "length (concat (map int16_bytes ws)) = 2 * length ws"
  by (induction ws) (simp_all add: int16_bytes_def)

lemma sint_toInt16: "- 32768 \<le> trunc y \<Longrightarrow> trunc y < 32768 \<Longrightarrow> sint (toInt16 y) = trunc y"
  by (simp add: toInt16_def sint_sbintrunc' signed_take_bit_int_eq_self)

lemma b64ToPcm_pcmToB64: "b64ToPcm (pcmToB64 s) = Inr (map quantise s)"
proof -
  have "map charCodeAt (map fromCharCode bs) = bs" for bs
    by (induction bs) (simp_all add: charCodeAt_fromCharCode)
  then show ?thesis
    unfolding b64ToPcm_def pcmToB64_def Let_def atob_btoa
    by (simp add: length_int16_bytes int16_view_bytes del: map_map) (simp add: quantise_def)
qed

lemma quantise_neg:
  assumes "- 1 \<le> x" "x < 0"
  shows "x \<le> quantise x" "quantise x - x < 1 / 32768"
proof -
  define y where "y = x * 32768"
  have y: "- 32768 \<le> y" "y < 0" using assms by (simp_all add: y_def)
  have c: "y \<le> of_int \<lceil>y\<rceil>" "of_int \<lceil>y\<rceil> < y + 1"
    by linarith+
  have t: "trunc y = \<lceil>y\<rceil>" using y by (simp add: trunc_def)
  have "- 32768 \<le> \<lceil>y\<rceil>" "\<lceil>y\<rceil> < 32768" using y c by linarith+
  then have s: "sint (toInt16 y) = \<lceil>y\<rceil>" using sint_toInt16 [of y] t by simp
  have q: "quantise x = of_int \<lceil>y\<rceil> / 32768"
    using assms s by (simp add: quantise_def float_to_int16_def Let_def y_def)
  have "x * 32768 \<le> of_int \<lceil>y\<rceil>" "of_int \<lceil>y\<rceil> < x * 32768 + 1"
    using c unfolding y_def by linarith+
  then show "x \<le> quantise x" "quantise x - x < 1 / 32768"
    unfolding q by (simp_all add: field_simps)
qed

lemma quantise_nonneg:
  assumes "0 \<le> x" "x \<le> 1"
  shows "quantise x \<le> x" "x - quantise x < 1 / 16384"
proof -
  define y where "y = x * 32767"
  have y: "0 \<le> y" "y \<le> 32767" using assms by (simp_all add: y_def)
  have c: "of_int \<lfloor>y\<rfloor> \<le> y" "y < of_int \<lfloor>y\<rfloor> + 1"
    by linarith+
  have t: "trunc y = \<lfloor>y\<rfloor>" using y by (simp add: trunc_def)
  have "- 32768 \<le> \<lfloor>y\<rfloor>" "\<lfloor>y\<rfloor> < 32768" using y c by linarith+
  then have s: "sint (toInt16 y) = \<lfloor>y\<rfloor>" using sint_toInt16 [of y] t by simp
  have q: "quantise x = of_int \<lfloor>y\<rfloor> / 32768"
    using assms s by (simp add: quantise_def float_to_int16_def Let_def y_def)
  have "of_int \<lfloor>y\<rfloor> \<le> x * 32768" "x * 32768 < of_int \<lfloor>y\<rfloor> + 2"
    using c assms unfolding y_def by linarith+
  then show "quantise x \<le> x" "x - quantise x < 1 / 16384"
    unfolding q by (simp_all add: field_simps)
qed

lemma quantise_bound:
  assumes "- 1 \<le> x" "x \<le> 1"
  shows "\<bar>quantise x - x\<bar> < 1 / 16384"
proof (cases "x < 0")
  case True
  from quantise_neg [OF assms(1) True] show ?thesis by simp
next
  case False
  then have "0 \<le> x" by simp
  from quantise_nonneg [OF this assms(2)] show ?thesis by simp
qed

lemma quantise_example: "quantise (65535 / 65536) = 16383 / 16384"
  by (simp add: quantise_def float_to_int16_def toInt16_def trunc_def Let_def)

section \<open>C2: round trip of the codec\<close>

text \<open>
  C2, as stated, asks that every sample in \<open>[-1, 1]\<close> comes back within \<open>1 / 32768\<close>.
  The sample \<open>65535 / 65536\<close> (a 32-bit float) is encoded as \<open>32766\<close>, because
  non-negative samples are scaled by \<open>32767\<close> and truncated, and decoded as
  \<open>32766 / 32768\<close>: the difference is \<open>3 / 65536\<close>, more than \<open>1 / 32768\<close>.
\<close>

theorem pcm_roundtrip_counterexample:
  "b64ToPcm (pcmToB64 [65535 / 65536]) = Inr [16383 / 16384] \<and>
   - 1 \<le> (65535 / 65536 :: real) \<and> (65535 / 65536 :: real) \<le> 1 \<and>
   \<bar>16383 / 16384 - 65535 / 65536 :: real\<bar> > 1 / 32768"
  by (simp add: b64ToPcm_pcmToB64 quantise_example)

text \<open>
  C2, amended: for every finite sequence \<open>s\<close> of samples in \<open>[-1, 1]\<close>, decoding the
  encoding of \<open>s\<close> yields a sequence of the same length in which every sample differs
  from the corresponding sample of \<open>s\<close> by less than \<open>1 / 16384\<close> (twice the claimed
  bound), and by less than \<open>1 / 32768\<close> where the sample of \<open>s\<close> is negative.
\<close>

theorem pcm_roundtrip_quantisation:
  assumes "\<forall>x\<in>set s. - 1 \<le> x \<and> x \<le> 1"
  shows "\<exists>r. b64ToPcm (pcmToB64 s) = Inr r \<and> length r = length s \<and>
           (\<forall>i<length s. \<bar>r ! i - s ! i\<bar> < 1 / 16384 \<and>
                           (s ! i < 0 \<longrightarrow> \<bar>r ! i - s ! i\<bar> < 1 / 32768))"
proof -
  have "\<bar>quantise (s ! i) - s ! i\<bar> < 1 / 16384 \<and>
        (s ! i < 0 \<longrightarrow> \<bar>quantise (s ! i) - s ! i\<bar> < 1 / 32768)" if "i < length s" for i
  proof -
    from that assms have b: "- 1 \<le> s ! i" "s ! i \<le> 1" by simp_all
    show ?thesis
      using quantise_bound [OF b] quantise_neg [OF b(1)] by auto
  qed
  then show ?thesis by (simp add: b64ToPcm_pcmToB64)
qed

theorem pcm_roundtrip_quantisation_witness:
  "(- 1 \<le> (1 / 2 :: real) \<and> (1 / 2 :: real) \<le> 1) \<and>
   (\<exists>r. b64ToPcm (pcmToB64 [1 / 2]) = Inr r \<and> length r = 1 \<and> \<bar>r ! 0 - 1 / 2\<bar> < 1 / 16384)"
  using pcm_roundtrip_quantisation [of "[1 / 2]"] by auto

section \<open>Closed forms of the steps\<close>

lemma stopSession_eq:
  "stopSession w =
     w\<lparr>svc := (svc w)\<lparr>inputContext := None, outputContext := None, inputSource := None,
                       processor := None, currentStream := None, nextStartTime := 0,
                       isConnected := False\<rparr>,
       trace := trace w @ release_events (svc w)\<rparr>"
  by (cases w, cases "svc w")
     (simp add: stopSession_def release_events_def upd_def emit_def Let_def split: option.splits)

lemma startAudioInput_eq:
  "startAudioInput w =
     (if inputContext (svc w) = None \<or> currentStream (svc w) = None
         \<or> sessionPromise (svc w) = None
      then w
      else w\<lparr>svc := (svc w)\<lparr>inputSource := Some (fresh w), processor := Some (Suc (fresh w))\<rparr>,
             fresh := Suc (Suc (fresh w)),
             trace := trace w @ [CreateMediaStreamSource (fresh w),
                                 CreateScriptProcessor (Suc (fresh w)),
                                 ConnectNode (fresh w), ConnectNode (Suc (fresh w))]\<rparr>)"
  by (cases w, cases "svc w")
     (simp add: startAudioInput_def alloc_def upd_def emit_def Let_def)

lemma onopen_eq:
  "onopen w =
     startAudioInput
       (w\<lparr>svc := (svc w)\<lparr>isConnected := True\<rparr>, trace := trace w @ [ConsoleLog]\<rparr>)"
  by (cases w) (simp add: onopen_def upd_def emit_def)

lemma stopSession_fields [simp]:
  "attempts (stopSession w) = attempts w"
  "fresh (stopSession w) = fresh w"
  "openSessions (stopSession w) = openSessions w"
  "timers (stopSession w) = timers w"
  "trace (stopSession w) = trace w @ release_events (svc w)"
  by (simp_all add: stopSession_eq)

lemma retry_events_release [simp]: "retry_events (release_events s) = []"
  by (simp add: retry_events_def release_events_def split: option.splits)

lemma retry_events_append [simp]: "retry_events (xs @ ys) = retry_events xs @ retry_events ys"
  by (simp add: retry_events_def)

lemma new_events_append: "trace w' = trace w @ X \<Longrightarrow> new_events w w' = X"
  by (simp add: new_events_def)

lemma cwr_ok:
  "connect_ok e (attempts w) \<Longrightarrow>
   connectWithRetry e r d w =
     (Inr (fresh w),
      onopen (w\<lparr>fresh := Suc (fresh w), attempts := Suc (attempts w),
                openSessions := openSessions w @ [fresh w],
                trace := trace w @ [LiveConnect (attempts w)]\<rparr>))"
  by (subst connectWithRetry.simps) (cases w, simp add: alloc_def emit_def Let_def)

lemma cwr_fail_last:
  "\<not> connect_ok e (attempts w) \<Longrightarrow>
   connectWithRetry e 0 d w =
     (Inl (ConnectError (attempts w)),
      w\<lparr>attempts := Suc (attempts w), trace := trace w @ [LiveConnect (attempts w)]\<rparr>)"
  by (subst connectWithRetry.simps) (cases w, simp add: emit_def Let_def)

lemma cwr_fail_retry:
  "\<not> connect_ok e (attempts w) \<Longrightarrow>
   connectWithRetry e (Suc r) d w =
     connectWithRetry e r (d * 2)
       (let w2 = w\<lparr>attempts := Suc (attempts w),
                   trace := trace w @ [LiveConnect (attempts w), ConsoleWarn, Sleep d]\<rparr>
        in if stop_during_backoff e (attempts w) then stopSession w2 else w2)"
  by (subst connectWithRetry.simps) (cases w, simp add: emit_def Let_def)

lemma cwr_fst:
  "fst (connectWithRetry e r d w) = retry_outcome (connect_ok e) (attempts w) r (fresh w)"
proof (induction r arbitrary: d w)
  case 0
  then show ?case by (cases "connect_ok e (attempts w)") (simp_all add: cwr_ok cwr_fail_last)
next
  case (Suc r)
  show ?case
  proof (cases "connect_ok e (attempts w)")
    case True
    then show ?thesis by (simp add: cwr_ok)
  next
    case False
    then show ?thesis by (simp add: cwr_fail_retry Suc.IH Let_def)
  qed
qed

lemma startAudioInput_trace:
  "\<exists>Y. trace (startAudioInput w) = trace w @ Y \<and> retry_events Y = []"
  by (simp add: startAudioInput_eq retry_events_def)

lemma onopen_trace:
  "\<exists>Y. trace (onopen w) = trace w @ [ConsoleLog] @ Y \<and> retry_events Y = []"
  using startAudioInput_trace
    [of "w\<lparr>svc := (svc w)\<lparr>isConnected := True\<rparr>, trace := trace w @ [ConsoleLog]\<rparr>"]
  by (simp add: onopen_eq)

lemma cwr_ok_trace:
  assumes "connect_ok e (attempts w)"
  shows "\<exists>Y. trace (snd (connectWithRetry e r d w)) =
               trace w @ [LiveConnect (attempts w), ConsoleLog] @ Y \<and> retry_events Y = []"
  using onopen_trace
    [of "w\<lparr>fresh := Suc (fresh w), attempts := Suc (attempts w),
          openSessions := openSessions w @ [fresh w],
          trace := trace w @ [LiveConnect (attempts w)]\<rparr>"]
  by (simp add: cwr_ok [OF assms])

lemma cwr_retry_events:
  "\<exists>X. trace (snd (connectWithRetry e r d w)) = trace w @ X \<and>
       retry_events X = retry_plan (connect_ok e) (attempts w) r d"
proof (induction r arbitrary: d w)
  case 0
  show ?case
  proof (cases "connect_ok e (attempts w)")
    case True
    from cwr_ok_trace [OF True] show ?thesis using True by (fastforce simp: retry_events_def)
  next
    case False
    then show ?thesis by (simp add: cwr_fail_last retry_events_def)
  qed
next
  case (Suc r)
  show ?case
  proof (cases "connect_ok e (attempts w)")
    case True
    from cwr_ok_trace [OF True] show ?thesis using True by (fastforce simp: retry_events_def)
  next
    case False
    define w3 where "w3 = (let w2 = w\<lparr>attempts := Suc (attempts w),
                   trace := trace w @ [LiveConnect (attempts w), ConsoleWarn, Sleep d]\<rparr>
        in if stop_during_backoff e (attempts w) then stopSession w2 else w2)"
    have a: "attempts w3 = Suc (attempts w)" by (simp add: w3_def Let_def)
    have "\<exists>R. trace w3 = trace w @ [LiveConnect (attempts w), ConsoleWarn, Sleep d] @ R \<and>
            retry_events R = []"
    proof (cases "stop_during_backoff e (attempts w)")
      case True
      then show ?thesis
        by (intro exI [of _ "release_events (svc w)"]) (simp add: w3_def Let_def)
    next
      case False
      then show ?thesis
        by (intro exI [of _ "[]"]) (simp add: w3_def Let_def retry_events_def)
    qed
    then obtain R where t: "trace w3 = trace w @ [LiveConnect (attempts w), ConsoleWarn, Sleep d] @ R"
      and R: "retry_events R = []"
      by blast
    from Suc.IH [of "d * 2" w3] obtain X where
      X: "trace (snd (connectWithRetry e r (d * 2) w3)) = trace w3 @ X"
         "retry_events X = retry_plan (connect_ok e) (attempts w3) r (d * 2)"
      by blast
    have "connectWithRetry e (Suc r) d w = connectWithRetry e r (d * 2) w3"
      using False by (simp add: cwr_fail_retry w3_def)
    then show ?thesis using X t R a False
      by (simp add: retry_events_def)
  qed
qed

lemma cwr_new_retry_events:
  "retry_events (new_events w (snd (connectWithRetry e r d w))) =
     retry_plan (connect_ok e) (attempts w) r d"
  using cwr_retry_events [of e r d w] by (auto simp: new_events_append)

section \<open>C3: the retry policy\<close>

text \<open>
  C3: \<open>connectWithRetry\<close> with its defaults (3 retries, first delay 1000 ms) makes
  between one and four connect calls, with sleeps of 1000, 2000 and 4000 ms between
  them; when the first two calls fail and the third succeeds it returns the session
  after exactly these three calls and the sleeps of 1000 and 2000 ms; when all four
  calls fail it throws the error of the fourth call after the three sleeps and makes no
  further call. This holds whether or not \<open>stopSession\<close> is called during a sleep.
\<close>

theorem connect_retry_policy:
  "(\<exists>n. 1 \<le> n \<and> n \<le> 4 \<and>
        retry_events (new_events w (snd (connectWithRetry e 3 1000 w))) =
          take (2 * n - 1)
            [LiveConnect (attempts w), Sleep 1000, LiveConnect (attempts w + 1), Sleep 2000,
             LiveConnect (attempts w + 2), Sleep 4000, LiveConnect (attempts w + 3)]) \<and>
   (\<not> connect_ok e (attempts w) \<and> \<not> connect_ok e (attempts w + 1) \<and>
    connect_ok e (attempts w + 2) \<longrightarrow>
      fst (connectWithRetry e 3 1000 w) = Inr (fresh w) \<and>
      retry_events (new_events w (snd (connectWithRetry e 3 1000 w))) =
        [LiveConnect (attempts w), Sleep 1000, LiveConnect (attempts w + 1), Sleep 2000,
         LiveConnect (attempts w + 2)]) \<and>
   (\<not> connect_ok e (attempts w) \<and> \<not> connect_ok e (attempts w + 1) \<and>
    \<not> connect_ok e (attempts w + 2) \<and> \<not> connect_ok e (attempts w + 3) \<longrightarrow>
      fst (connectWithRetry e 3 1000 w) = Inl (ConnectError (attempts w + 3)) \<and>
      retry_events (new_events w (snd (connectWithRetry e 3 1000 w))) =
        [LiveConnect (attempts w), Sleep 1000, LiveConnect (attempts w + 1), Sleep 2000,
         LiveConnect (attempts w + 2), Sleep 4000, LiveConnect (attempts w + 3)])"
proof -
  define a where "a = attempts w"
  define ok where "ok = connect_ok e"
  have ev: "retry_events (new_events w (snd (connectWithRetry e 3 1000 w))) =
          LiveConnect a # (if ok a then [] else Sleep 1000 #
          LiveConnect (a + 1) # (if ok (a + 1) then [] else Sleep 2000 #
          LiveConnect (a + 2) # (if ok (a + 2) then [] else Sleep 4000 #
          [LiveConnect (a + 3)])))"
    by (simp add: cwr_new_retry_events numeral_3_eq_3 a_def ok_def)
  have r: "fst (connectWithRetry e 3 1000 w) =
          (if ok a then Inr (fresh w) else if ok (a + 1) then Inr (fresh w)
           else if ok (a + 2) then Inr (fresh w) else if ok (a + 3) then Inr (fresh w)
           else Inl (ConnectError (a + 3)))"
    by (simp add: cwr_fst numeral_3_eq_3 a_def ok_def)
  have "\<exists>n. 1 \<le> n \<and> n \<le> 4 \<and>
        retry_events (new_events w (snd (connectWithRetry e 3 1000 w))) =
          take (2 * n - 1)
            [LiveConnect a, Sleep 1000, LiveConnect (a + 1), Sleep 2000,
             LiveConnect (a + 2), Sleep 4000, LiveConnect (a + 3)]"
  proof (cases "ok a")
    case True
    then show ?thesis unfolding ev by (intro exI [of _ 1]) simp
  next
    case False
    note f0 = this
    show ?thesis
    proof (cases "ok (a + 1)")
      case True
      then show ?thesis unfolding ev using f0 by (intro exI [of _ 2]) (simp add: eval_nat_numeral)
    next
      case False
      note f1 = this
      show ?thesis
      proof (cases "ok (a + 2)")
        case True
        then show ?thesis unfolding ev using f0 f1
          by (intro exI [of _ 3]) (simp add: eval_nat_numeral)
      next
        case False
        then show ?thesis unfolding ev using f0 f1
          by (intro exI [of _ 4]) (simp add: eval_nat_numeral)
      qed
    qed
  qed
  then show ?thesis
    unfolding a_def [symmetric] ok_def [symmetric] r ev by simp
qed

theorem connect_retry_policy_witness:
  "fst (connectWithRetry flaky_env 3 1000 init_world) = Inr 0 \<and>
   retry_events (new_events init_world (snd (connectWithRetry flaky_env 3 1000 init_world))) =
     [LiveConnect 0, Sleep 1000, LiveConnect 1, Sleep 2000, LiveConnect 2] \<and>
   fst (connectWithRetry dead_env 3 1000 init_world) = Inl (ConnectError 3) \<and>
   retry_events (new_events init_world (snd (connectWithRetry dead_env 3 1000 init_world))) =
     [LiveConnect 0, Sleep 1000, LiveConnect 1, Sleep 2000, LiveConnect 2, Sleep 4000,
      LiveConnect 3]"
  using connect_retry_policy [of init_world flaky_env] connect_retry_policy [of init_world dead_env]
  by (simp add: flaky_env_def dead_env_def good_env_def init_world_def)

section \<open>Concrete runs\<close>

lemmas run_defs =
  startSession_def start_failed_def alloc_def emit_def upd_def onopen_eq startAudioInput_eq
  stopSession_eq release_events_def INPUT_SAMPLE_RATE_def OUTPUT_SAMPLE_RATE_def Let_def

lemma active_world_eq:
  "active_world =
     \<lparr>svc = \<lparr>inputContext = Some 0, outputContext = Some 1, inputSource = Some 5,
              processor = Some 6, currentStream = Some 2, nextStartTime = 0,
              isConnected = True, sessionPromise = Some 3\<rparr>,
      fresh = 7, attempts = 1, openSessions = [4], timers = [],
      trace = [NewAudioContext 0 16000, NewAudioContext 1 24000, GetUserMedia 2,
               LiveConnect 0, ConsoleLog, CreateMediaStreamSource 5,
               CreateScriptProcessor 6, ConnectNode 5, ConnectNode 6]\<rparr>"
  by (simp add: active_world_def good_env_def init_world_def init_service_def run_defs cwr_ok
      cong: let_weak_cong)

lemma stopped_world_eq:
  "stopSession active_world =
     \<lparr>svc = \<lparr>inputContext = None, outputContext = None, inputSource = None,
              processor = None, currentStream = None, nextStartTime = 0,
              isConnected = False, sessionPromise = Some 3\<rparr>,
      fresh = 7, attempts = 1, openSessions = [4], timers = [],
      trace = [NewAudioContext 0 16000, NewAudioContext 1 24000, GetUserMedia 2,
               LiveConnect 0, ConsoleLog, CreateMediaStreamSource 5,
               CreateScriptProcessor 6, ConnectNode 5, ConnectNode 6,
               Disconnect 5, Disconnect 6, StopTracks 2, CloseContext 0, CloseContext 1]\<rparr>"
  by (simp add: active_world_eq stopSession_eq release_events_def)

lemma restarted_world_eq:
  "startSession good_env (stopSession active_world) =
     \<lparr>svc = \<lparr>inputContext = Some 7, outputContext = Some 8, inputSource = Some 12,
              processor = Some 13, currentStream = Some 9, nextStartTime = 0,
              isConnected = True, sessionPromise = Some 10\<rparr>,
      fresh = 14, attempts = 2, openSessions = [4, 11], timers = [],
      trace = [NewAudioContext 0 16000, NewAudioContext 1 24000, GetUserMedia 2,
               LiveConnect 0, ConsoleLog, CreateMediaStreamSource 5,
               CreateScriptProcessor 6, ConnectNode 5, ConnectNode 6,
               Disconnect 5, Disconnect 6, StopTracks 2, CloseContext 0, CloseContext 1,
               NewAudioContext 7 16000, NewAudioContext 8 24000, GetUserMedia 9,
               LiveConnect 1, ConsoleLog, CreateMediaStreamSource 12,
               CreateScriptProcessor 13, ConnectNode 12, ConnectNode 13]\<rparr>"
  unfolding stopped_world_eq
  by (simp add: good_env_def run_defs cwr_ok cong: let_weak_cong)

section \<open>C9: stopSession without a session, and twice\<close>

lemma idle_stopSession_id: "idle (svc w) \<Longrightarrow> stopSession w = w"
  by (cases w, cases "svc w") (simp add: idle_def stopSession_eq release_events_def)

lemma idle_stopSession: "idle (svc (stopSession w))"
  by (simp add: idle_def stopSession_eq)

lemma idle_init: "idle (svc init_world)"
  by (simp add: idle_def init_world_def init_service_def)

text \<open>
  C9: \<open>stopSession\<close> has no error result (every call in it that can throw is caught).
  Called on a service without a session (no context, node or stream, not connected,
  cursor at 0) it changes nothing and calls nothing; called a second time it changes
  nothing and calls nothing, whatever the state before the first call.
\<close>

theorem stopSession_idempotent:
  "(idle (svc w) \<longrightarrow> stopSession w = w) \<and> stopSession (stopSession w) = stopSession w"
  using idle_stopSession_id idle_stopSession by blast

theorem stopSession_idempotent_witness:
  "idle (svc init_world) \<and> stopSession init_world = init_world \<and>
   stopSession (stopSession active_world) = stopSession active_world"
  using stopSession_idempotent [of init_world] stopSession_idempotent [of active_world] idle_init
  by simp

section \<open>C10: a chunk that arrives without a session\<close>

text \<open>
  C10: after \<open>stopSession\<close>, and before any session was started, the output context is
  \<^verbatim>\<open>null\<close>; \<open>playAudioChunk\<close> then returns at once for every chunk, without an
  exception, without decoding and without scheduling or changing anything.
\<close>

theorem late_chunk_discarded:
  "outputContext (svc (stopSession w)) = None \<and>
   outputContext (svc init_world) = None \<and>
   (outputContext (svc v) = None \<longrightarrow> playAudioChunk pe b v = (None, v))"
  by (simp add: stopSession_eq init_world_def init_service_def playAudioChunk_def)

theorem late_chunk_discarded_witness:
  "playAudioChunk (play_at 1) (pcmToB64 [0, 1 / 2]) (stopSession active_world) =
     (None, stopSession active_world) \<and>
   playAudioChunk (play_at 1) (pcmToB64 [0, 1 / 2]) init_world = (None, init_world)"
  using late_chunk_discarded [of active_world "stopSession active_world"]
    late_chunk_discarded [of active_world init_world]
  by simp

section \<open>C8: startSession on a connected service\<close>

text \<open>
  C8, as stated, ends with: at most one session is open per service at any time. But
  \<open>stopSession\<close> clears \<^verbatim>\<open>isConnected\<close> and never closes the session, so the guard of
  \<open>startSession\<close> lets the next call through: after start, stop, start on a platform
  where every connect succeeds, two sessions are open.
\<close>

theorem second_session_counterexample:
  "openSessions active_world = [4] \<and>
   openSessions (stopSession active_world) = [4] \<and>
   \<not> isConnected (svc (stopSession active_world)) \<and>
   openSessions (startSession good_env (stopSession active_world)) = [4, 11]"
proof -
  have "openSessions active_world = [4]"
    by (simp add: active_world_eq)
  moreover have "openSessions (stopSession active_world) = [4]"
    "\<not> isConnected (svc (stopSession active_world))"
    unfolding stopped_world_eq by simp_all
  moreover have "openSessions (startSession good_env (stopSession active_world)) = [4, 11]"
    unfolding restarted_world_eq by simp
  ultimately show ?thesis by simp
qed

text \<open>
  C8, amended: \<open>startSession\<close> called while \<^verbatim>\<open>isConnected\<close> is true is a no-op: it
  opens no connection, acquires no microphone stream or audio context, calls nothing
  and leaves the whole state unchanged. (Nothing is claimed about the number of open
  sessions.)
\<close>

theorem startSession_noop_when_connected:
  "isConnected (svc w) \<Longrightarrow> startSession e w = w"
  by (simp add: startSession_def)

theorem startSession_noop_when_connected_witness:
  "isConnected (svc active_world) \<and> startSession dead_env active_world = active_world"
proof -
  have c: "isConnected (svc active_world)" by (simp add: active_world_eq)
  from startSession_noop_when_connected [OF c] c show ?thesis by simp
qed

section \<open>C1: the playback schedule\<close>

lemma chunk_samples_pcmToB64: "chunk_samples (pcmToB64 s) = length s"
  by (simp add: chunk_samples_def b64ToPcm_pcmToB64)

lemma good_chunk_decodes:
  assumes "good_chunk pe b"
  obtains audioData where "b64ToPcm b = Inr audioData" "audioData \<noteq> []"
    "length audioData = chunk_samples b"
  using assms by (cases "b64ToPcm b") (auto simp: good_chunk_def chunk_samples_def)

lemma playAudioChunk_good:
  assumes c: "outputContext (svc w) = Some c" and g: "good_chunk pe b"
  shows "playAudioChunk pe b w =
     (None,
      w\<lparr>svc := (svc w)\<lparr>nextStartTime :=
                 max (currentTime pe) (nextStartTime (svc w)) + real (chunk_samples b) / 24000\<rparr>,
        trace := trace w @ (if suspended pe then [ResumeContext c] else []) @
                 [SourceStart c (max (currentTime pe) (nextStartTime (svc w)))
                    (real (chunk_samples b) / 24000)]\<rparr>)"
proof -
  from g obtain audioData where d: "b64ToPcm b = Inr audioData" "audioData \<noteq> []"
    "length audioData = chunk_samples b"
    by (rule good_chunk_decodes)
  from g have ns: "\<not> stop_during_resume pe" "0 < chunk_samples b"
    by (simp_all add: good_chunk_def)
  show ?thesis
    using c d ns
    by (cases w, cases "svc w")
       (simp add: playAudioChunk_def emit_def upd_def OUTPUT_SAMPLE_RATE_def Let_def max_def)
qed

lemma scheduled_append [simp]: "scheduled (xs @ ys) = scheduled xs @ scheduled ys"
  by (simp add: scheduled_def List.map_filter_def)

lemma scheduled_simps [simp]:
  "scheduled [] = []"
  "scheduled (SourceStart c t d # tr) = (t, d) # scheduled tr"
  "scheduled (ResumeContext c # tr) = scheduled tr"
  by (simp_all add: scheduled_def List.map_filter_def)

lemma play_all_schedule:
  assumes "outputContext (svc w) = Some c" and "list_all (\<lambda>(pe, b). good_chunk pe b) chunks"
  shows "\<exists>X. trace (play_all chunks w) = trace w @ X \<and>
             scheduled X =
               spec_schedule (nextStartTime (svc w))
                 (map (\<lambda>(pe, b). (currentTime pe, real (chunk_samples b) / 24000)) chunks)"
  using assms
proof (induction chunks arbitrary: w)
  case Nil
  then show ?case by simp
next
  case (Cons pb chunks)
  obtain pe b where pb: "pb = (pe, b)" by (cases pb)
  from Cons.prems pb have g: "good_chunk pe b"
    and rest: "list_all (\<lambda>(pe, b). good_chunk pe b) chunks"
    by simp_all
  define w' where "w' = snd (playAudioChunk pe b w)"
  note step = playAudioChunk_good [OF Cons.prems(1) g]
  have c': "outputContext (svc w') = Some c"
    using Cons.prems(1) by (simp add: w'_def step)
  have n': "nextStartTime (svc w') =
      max (currentTime pe) (nextStartTime (svc w)) + real (chunk_samples b) / 24000"
    by (simp add: w'_def step)
  have t': "trace w' = trace w @ (if suspended pe then [ResumeContext c] else []) @
                 [SourceStart c (max (currentTime pe) (nextStartTime (svc w)))
                    (real (chunk_samples b) / 24000)]"
    by (simp add: w'_def step)
  from Cons.IH [OF c' rest] obtain X where
    X: "trace (play_all chunks w') = trace w' @ X"
       "scheduled X = spec_schedule (nextStartTime (svc w'))
          (map (\<lambda>(pe, b). (currentTime pe, real (chunk_samples b) / 24000)) chunks)"
    by blast
  show ?case
    unfolding pb
    by (rule exI [of _ "(if suspended pe then [ResumeContext c] else []) @
                 [SourceStart c (max (currentTime pe) (nextStartTime (svc w)))
                    (real (chunk_samples b) / 24000)] @ X"])
       (simp add: X t' n' w'_def [symmetric])
qed

lemma spec_schedule_no_overlap: "no_overlap (spec_schedule n xs)"
proof (induction xs arbitrary: n)
  case Nil
  then show ?case by simp
next
  case (Cons x xs)
  obtain now d where x: "x = (now, d)" by (cases x)
  show ?case
  proof (cases xs)
    case Nil
    then show ?thesis by (simp add: x)
  next
    case (Cons y ys)
    obtain now' d' where y: "y = (now', d')" by (cases y)
    from Cons.IH [of "max now n + d"] show ?thesis
      by (simp add: x Cons y)
  qed
qed

lemma spec_schedule_lower: "(s, d) \<in> set (spec_schedule n xs) \<Longrightarrow> list_all (\<lambda>(now, d). 0 \<le> d) xs \<Longrightarrow> n \<le> s"
proof (induction xs arbitrary: n)
  case Nil
  then show ?case by simp
next
  case (Cons x xs)
  obtain now d' where x: "x = (now, d')" by (cases x)
  from Cons.prems have "(s, d) = (max now n, d') \<or> (s, d) \<in> set (spec_schedule (max now n + d') xs)"
    by (simp add: x)
  then show ?case
  proof
    assume "(s, d) = (max now n, d')"
    then show ?thesis by simp
  next
    assume "(s, d) \<in> set (spec_schedule (max now n + d') xs)"
    from Cons.IH [OF this] Cons.prems(2) have "max now n + d' \<le> s" by (simp add: x)
    moreover from Cons.prems(2) have "0 \<le> d'" by (simp add: x)
    ultimately show ?thesis by linarith
  qed
qed

lemma spec_schedule_sorted:
  "list_all (\<lambda>(now, d). 0 \<le> d) xs \<Longrightarrow> sorted (map fst (spec_schedule n xs))"
proof (induction xs arbitrary: n)
  case Nil
  then show ?case by simp
next
  case (Cons x xs)
  obtain now d where x: "x = (now, d)" by (cases x)
  from Cons.prems have d: "0 \<le> d" and rest: "list_all (\<lambda>(now, d). 0 \<le> d) xs"
    by (simp_all add: x)
  have "max now n \<le> fst y" if "y \<in> set (spec_schedule (max now n + d) xs)" for y
  proof -
    obtain s d' where y: "y = (s, d')" by (cases y)
    from spec_schedule_lower [OF that [unfolded y] rest] d have "max now n \<le> s" by linarith
    then show ?thesis by (simp add: y)
  qed
  then have "\<forall>y\<in>set (spec_schedule (max now n + d) xs). max now n \<le> fst y" by blast
  then show ?case using Cons.IH [OF rest, of "max now n + d"] by (simp add: x)
qed

text \<open>
  C1: the cursor \<open>nextStartTime\<close> is 0 in a new service (and again after
  \<open>stopSession\<close>). When chunks that decode to at least one sample are played in order on
  a service with an output context, chunk \<open>i\<close> is started at
  \<open>max now\<^sub>i nextStartTime\<close>, and the cursor then becomes that start plus the chunk's
  duration, its sample count divided by 24000: the starts and durations are those of
  \<open>spec_schedule\<close>. So each chunk starts no earlier than the end of the one before,
  and the starts never decrease.
\<close>

theorem playback_schedule:
  assumes "outputContext (svc w) = Some c" and "list_all (\<lambda>(pe, b). good_chunk pe b) chunks"
  shows "nextStartTime (svc init_world) = 0 \<and> nextStartTime (svc (stopSession w)) = 0 \<and>
         scheduled (new_events w (play_all chunks w)) =
           spec_schedule (nextStartTime (svc w))
             (map (\<lambda>(pe, b). (currentTime pe, real (chunk_samples b) / 24000)) chunks) \<and>
         no_overlap (scheduled (new_events w (play_all chunks w))) \<and>
         sorted (map fst (scheduled (new_events w (play_all chunks w))))"
proof -
  from play_all_schedule [OF assms] obtain X where
    X: "trace (play_all chunks w) = trace w @ X"
       "scheduled X = spec_schedule (nextStartTime (svc w))
          (map (\<lambda>(pe, b). (currentTime pe, real (chunk_samples b) / 24000)) chunks)"
    by blast
  have n: "new_events w (play_all chunks w) = X"
    using X(1) by (rule new_events_append)
  have nonneg: "list_all (\<lambda>(now, d). 0 \<le> d)
      (map (\<lambda>(pe, b). (currentTime pe, real (chunk_samples b) / 24000)) chunks)"
    by (simp add: list_all_iff split_beta)
  show ?thesis
    unfolding n X(2)
    using spec_schedule_no_overlap spec_schedule_sorted [OF nonneg]
    by (simp add: init_world_def init_service_def stopSession_eq)
qed

theorem playback_schedule_witness:
  "outputContext (svc active_world) = Some 1 \<and> nextStartTime (svc active_world) = 0 \<and>
   scheduled (new_events active_world
     (play_all [(play_at 0, pcmToB64 [0, 0]), (play_at (1 / 24000), pcmToB64 [1 / 2]),
                (play_at 1, pcmToB64 [1])] active_world)) =
     [(0, 1 / 12000), (1 / 12000, 1 / 24000), (1, 1 / 24000)]"
proof -
  have c: "outputContext (svc active_world) = Some 1" and n: "nextStartTime (svc active_world) = 0"
    by (simp_all add: active_world_eq)
  have g: "list_all (\<lambda>(pe, b). good_chunk pe b)
      [(play_at 0, pcmToB64 [0, 0]), (play_at (1 / 24000), pcmToB64 [1 / 2]),
       (play_at 1, pcmToB64 [1])]"
    by (simp add: good_chunk_def chunk_samples_pcmToB64 play_at_def)
  from playback_schedule [OF c g] c n show ?thesis
    by (simp add: chunk_samples_pcmToB64 play_at_def)
qed

section \<open>The message handler\<close>

lemma atob_Nil: "atob [] = Inr []"
  by (simp add: atob_def strip_padding_def)

lemma chunk_samples_Nil: "chunk_samples [] = 0"
  by (simp add: chunk_samples_def b64ToPcm_def atob_Nil)

lemma good_chunk_nonempty: "good_chunk pe b \<Longrightarrow> b \<noteq> []"
  by (auto simp: good_chunk_def chunk_samples_Nil)

lemma atob_AA: "atob ''AA=='' = Inr [char_of (0 :: nat)]"
  by (simp add: atob_def strip_padding_def is_ascii_whitespace_def b64index_def Let_def)

lemma length_int16_view: "length (int16_view bytes) = length bytes div 2"
  by (induction bytes rule: int16_view.induct) simp_all

lemma b64ToPcm_odd: "atob b = Inr bin \<Longrightarrow> odd (length bin) \<Longrightarrow> b64ToPcm b = Inl RangeError"
  by (simp add: b64ToPcm_def)

lemma b64ToPcm_even:
  "atob b = Inr bin \<Longrightarrow> even (length bin) \<Longrightarrow>
   \<exists>xs. b64ToPcm b = Inr xs \<and> length xs = length bin div 2"
  by (simp add: b64ToPcm_def length_int16_view)

lemma activity_log_append [simp]:
  "activity_log (xs @ ys) = activity_log xs @ activity_log ys"
  by (simp add: activity_log_def List.map_filter_def)

lemma activity_log_simps [simp]:
  "activity_log [] = []"
  "activity_log (OnAudioActivity t a # tr) = (t, a) # activity_log tr"
  "activity_log (SourceStart c s d # tr) = activity_log tr"
  "activity_log (ResumeContext c # tr) = activity_log tr"
  by (simp_all add: activity_log_def List.map_filter_def)

lemma onmessage_good_no_context:
  assumes g: "good_chunk pe b" and c: "outputContext (svc w) = None"
  shows "onmessage pe t (Some b) w =
           (None, w\<lparr>timers := timers w @ [t + 500],
                    trace := trace w @ [OnAudioActivity t True]\<rparr>)"
  using good_chunk_nonempty [OF g] c
  by (simp add: onmessage_def playAudioChunk_def emit_def)

lemma onmessage_good_context:
  assumes g: "good_chunk pe b" and c: "outputContext (svc w) = Some c"
  shows "onmessage pe t (Some b) w =
           (None,
            w\<lparr>svc := (svc w)\<lparr>nextStartTime :=
                 max (currentTime pe) (nextStartTime (svc w)) + real (chunk_samples b) / 24000\<rparr>,
              timers := timers w @ [t + 500],
              trace := trace w @ [OnAudioActivity t True] @
                 (if suspended pe then [ResumeContext c] else []) @
                 [SourceStart c (max (currentTime pe) (nextStartTime (svc w)))
                    (real (chunk_samples b) / 24000)]\<rparr>)"
proof -
  have c': "outputContext (svc (emit (OnAudioActivity t True) w)) = Some c"
    using c by (simp add: emit_def)
  show ?thesis using good_chunk_nonempty [OF g]
    by (simp add: onmessage_def playAudioChunk_good [OF c' g]) (simp add: emit_def)
qed

lemma onmessage_good:
  assumes g: "good_chunk pe b"
  shows "fst (onmessage pe t (Some b) w) = None"
    and "timers (snd (onmessage pe t (Some b) w)) = timers w @ [t + 500]"
    and "\<exists>X. trace (snd (onmessage pe t (Some b) w)) = trace w @ X \<and>
             activity_log X = [(t, True)]"
proof -
  show "fst (onmessage pe t (Some b) w) = None"
    by (cases "outputContext (svc w)")
       (simp_all add: onmessage_good_no_context [OF g] onmessage_good_context [OF g])
  show "timers (snd (onmessage pe t (Some b) w)) = timers w @ [t + 500]"
    by (cases "outputContext (svc w)")
       (simp_all add: onmessage_good_no_context [OF g] onmessage_good_context [OF g])
  show "\<exists>X. trace (snd (onmessage pe t (Some b) w)) = trace w @ X \<and>
             activity_log X = [(t, True)]"
    by (cases "outputContext (svc w)")
       (simp_all add: onmessage_good_no_context [OF g] onmessage_good_context [OF g])
qed

section \<open>C6: the activity callback\<close>

lemma activity_onmessage:
  "good_chunk pe b \<Longrightarrow>
   activity_log (trace (snd (onmessage pe t (Some b) w))) = activity_log (trace w) @ [(t, True)]"
  using onmessage_good(3) [of pe b t w] by auto

lemma activity_log_timer_events:
  "activity_log (map (\<lambda>d. OnAudioActivity d False) ds) = map (\<lambda>d. (d, False)) ds"
  by (induction ds) simp_all

lemma activity_run_timers:
  "activity_log (trace (run_timers T w)) =
     activity_log (trace w) @ map (\<lambda>d. (d, False)) (filter (\<lambda>d. d \<le> T) (timers w))"
  by (simp add: run_timers_def activity_log_timer_events)

lemma timers_run_timers: "timers (run_timers T w) = filter (\<lambda>d. T < d) (timers w)"
  by (simp add: run_timers_def)

lemma trace_run_timers:
  "trace (run_timers T w) =
     trace w @ map (\<lambda>d. OnAudioActivity d False) (filter (\<lambda>d. d \<le> T) (timers w))"
  by (simp add: run_timers_def)

lemma activity_total_run_timers: "activity_total (run_timers T w) = activity_total w"
proof -
  have "set (timers w) = {d \<in> set (timers w). d \<le> T} \<union> {d \<in> set (timers w). T < d}"
    by auto
  then have "(\<lambda>d. (d, False)) ` set (timers w) =
      (\<lambda>d. (d, False)) ` {d \<in> set (timers w). d \<le> T} \<union>
      (\<lambda>d. (d, False)) ` {d \<in> set (timers w). T < d}"
    by (metis image_Un)
  then show ?thesis
    by (simp add: activity_total_def activity_run_timers timers_run_timers Un_assoc)
qed

lemma activity_total_onmessage:
  "good_chunk pe b \<Longrightarrow>
   activity_total (snd (onmessage pe t (Some b) w)) =
     activity_total w \<union> {(t, True), (t + 500, False)}"
  by (auto simp: activity_total_def activity_onmessage onmessage_good(2))

lemma activity_total_deliver:
  "list_all (\<lambda>(t, pe, b). good_chunk pe b) ms \<Longrightarrow>
   activity_total (deliver ms w) =
     activity_total w \<union> (\<lambda>(t, pe, b). (t, True)) ` set ms
       \<union> (\<lambda>(t, pe, b). (t + 500, False)) ` set ms"
proof (induction ms arbitrary: w)
  case Nil
  then show ?case by simp
next
  case (Cons m ms)
  obtain t pe b where m: "m = (t, pe, b)" by (cases m)
  from Cons.prems have g: "good_chunk pe b"
    and rest: "list_all (\<lambda>(t, pe, b). good_chunk pe b) ms"
    by (simp_all add: m)
  show ?case
    unfolding m
    by (simp add: Cons.IH [OF rest] activity_total_onmessage [OF g] activity_total_run_timers)
       blast
qed

text \<open>
  C6, as stated, has the 500 ms timer reset by every new chunk, so that the callback is
  not invoked with false while chunks arrive less than 500 ms apart. The handler arms a
  new timer per chunk and cancels none: with chunks at 0 ms and 300 ms, the callback is
  invoked with false at 500 ms, 200 ms after the second chunk (and the timer of the
  second chunk is still pending).
\<close>

theorem activity_reset_counterexample:
  "activity_log (trace (run_timers 500
     (deliver [(0, play_at 0, pcmToB64 [0, 0]), (300, play_at (3 / 10), pcmToB64 [0, 0])]
        active_world))) =
     [(0, True), (300, True), (500, False)] \<and>
   timers (run_timers 500
     (deliver [(0, play_at 0, pcmToB64 [0, 0]), (300, play_at (3 / 10), pcmToB64 [0, 0])]
        active_world)) = [800]"
proof -
  have g: "good_chunk (play_at x) (pcmToB64 [0, 0])" for x
    by (simp add: good_chunk_def chunk_samples_pcmToB64 play_at_def)
  have a: "activity_log (trace active_world) = []" "timers active_world = []"
    by (simp_all add: active_world_eq activity_log_def List.map_filter_def)
  show ?thesis
    by (simp add: activity_run_timers timers_run_timers activity_onmessage [OF g]
        onmessage_good(2) [OF g] a)
qed

text \<open>
  C6, amended: handling a message whose audio payload decodes to at least one sample
  invokes the callback with true at that time and arms one timer that invokes it with
  false 500 ms later. Timers are independent: no later chunk cancels or resets one, and
  each invokes the callback with false when it is due. So for every sequence of such
  messages the callbacks made or still pending are exactly a true at the time of each
  chunk and a false 500 ms after each chunk, however close together the chunks arrive.
\<close>

theorem activity_decay_timers:
  assumes "good_chunk pe b" and "list_all (\<lambda>(t, pe, b). good_chunk pe b) ms"
  shows "fst (onmessage pe t (Some b) w) = None \<and>
         activity_log (new_events w (snd (onmessage pe t (Some b) w))) = [(t, True)] \<and>
         timers (snd (onmessage pe t (Some b) w)) = timers w @ [t + 500] \<and>
         activity_log (new_events w (run_timers T w)) =
           map (\<lambda>d. (d, False)) (filter (\<lambda>d. d \<le> T) (timers w)) \<and>
         timers (run_timers T w) = filter (\<lambda>d. T < d) (timers w) \<and>
         activity_total (deliver ms w) =
           activity_total w \<union> (\<lambda>(t, pe, b). (t, True)) ` set ms
             \<union> (\<lambda>(t, pe, b). (t + 500, False)) ` set ms"
proof -
  from onmessage_good(3) [OF assms(1), of t w] obtain X where
    X: "trace (snd (onmessage pe t (Some b) w)) = trace w @ X" "activity_log X = [(t, True)]"
    by blast
  have 1: "activity_log (new_events w (snd (onmessage pe t (Some b) w))) = [(t, True)]"
    using new_events_append [OF X(1)] X(2) by simp
  have 2: "activity_log (new_events w (run_timers T w)) =
           map (\<lambda>d. (d, False)) (filter (\<lambda>d. d \<le> T) (timers w))"
    using new_events_append [OF trace_run_timers, of w T]
    by (simp add: activity_log_timer_events)
  show ?thesis
    using onmessage_good(1,2) [OF assms(1)] 1 2 timers_run_timers
      activity_total_deliver [OF assms(2)]
    by simp
qed

theorem activity_decay_timers_witness:
  "good_chunk (play_at 0) (pcmToB64 [0, 0]) \<and>
   fst (onmessage (play_at 0) 100 (Some (pcmToB64 [0, 0])) active_world) = None \<and>
   activity_log (new_events active_world
     (snd (onmessage (play_at 0) 100 (Some (pcmToB64 [0, 0])) active_world))) = [(100, True)] \<and>
   timers (snd (onmessage (play_at 0) 100 (Some (pcmToB64 [0, 0])) active_world)) = [600]"
proof -
  have g: "good_chunk (play_at 0) (pcmToB64 [0, 0])"
    by (simp add: good_chunk_def chunk_samples_pcmToB64 play_at_def)
  have l: "list_all (\<lambda>(t, pe, b). good_chunk pe b) [(100, play_at 0, pcmToB64 [0, 0])]"
    using g by simp
  have a: "timers active_world = []"
    by (simp add: active_world_eq)
  from activity_decay_timers [OF g l, of 100 active_world] g a show ?thesis
    by simp
qed

section \<open>C7: a frame of odd byte length\<close>

lemma onmessage_odd:
  assumes a: "atob b = Inr bin" and o: "odd (length bin)"
    and c: "outputContext (svc w) = Some c" and ns: "\<not> stop_during_resume pe"
  shows "onmessage pe t (Some b) w =
           (Some RangeError,
            w\<lparr>trace := trace w @ OnAudioActivity t True #
                      (if suspended pe then [ResumeContext c] else [])\<rparr>)"
proof -
  from a o have ne: "b \<noteq> []" by (auto simp: atob_Nil)
  show ?thesis
    using ne c ns
    by (simp add: onmessage_def playAudioChunk_def b64ToPcm_odd [OF a o] emit_def Let_def)
qed

text \<open>
  C7, as stated, has the odd-length frame logged as a \<open>MalformedFrame\<close> error. The
  service has no such error and no handler for it: for the payload \<^verbatim>\<open>AA==\<close> (one
  byte) the \<open>RangeError\<close> of the \<^verbatim>\<open>Int16Array\<close> view leaves \<open>playAudioChunk\<close> and the
  message handler uncaught, and the only thing the handler did is the activity callback
  with true: nothing is written to the console, and no timer is armed.
\<close>

theorem malformed_frame_counterexample:
  "atob ''AA=='' = Inr [char_of (0 :: nat)] \<and>
   onmessage (play_at 0) 0 (Some ''AA=='') active_world =
     (Some RangeError, emit (OnAudioActivity 0 True) active_world) \<and>
   new_events active_world (snd (onmessage (play_at 0) 0 (Some ''AA=='') active_world)) =
     [OnAudioActivity 0 True] \<and>
   filter is_console
     (new_events active_world (snd (onmessage (play_at 0) 0 (Some ''AA=='') active_world))) = [] \<and>
   timers (snd (onmessage (play_at 0) 0 (Some ''AA=='') active_world)) = []"
proof -
  have c: "outputContext (svc active_world) = Some 1"
    by (simp add: active_world_eq)
  have ns: "\<not> stop_during_resume (play_at 0)" "\<not> suspended (play_at 0)"
    by (simp_all add: play_at_def)
  have o: "odd (length [char_of (0 :: nat)])" by simp
  have m: "onmessage (play_at 0) 0 (Some ''AA=='') active_world =
     (Some RangeError, emit (OnAudioActivity 0 True) active_world)"
    using onmessage_odd [OF atob_AA o c ns(1), of 0] ns(2) by (simp add: emit_def)
  show ?thesis
    unfolding m by (simp add: atob_AA emit_def new_events_def) (simp add: active_world_eq)
qed

text \<open>
  C7, amended: decoding a frame whose byte length is odd throws a \<open>RangeError\<close> that the
  service neither catches nor logs. In a session (with \<open>stopSession\<close> not running inside
  the call) the error leaves the message handler after the activity callback with true
  (and the resume of a suspended context): nothing is scheduled, no timer is armed and
  the fields of the service are unchanged, so only that frame is dropped and the session
  survives. For every even byte length the decoder returns a sample sequence, of half
  that many samples.
\<close>

theorem malformed_frame:
  assumes "atob b = Inr bin"
  shows "(odd (length bin) \<longrightarrow>
            b64ToPcm b = Inl RangeError \<and>
            (outputContext (svc w) = Some c \<and> \<not> stop_during_resume pe \<longrightarrow>
               onmessage pe t (Some b) w =
                 (Some RangeError,
                  w\<lparr>trace := trace w @ OnAudioActivity t True #
                            (if suspended pe then [ResumeContext c] else [])\<rparr>))) \<and>
         (even (length bin) \<longrightarrow> (\<exists>xs. b64ToPcm b = Inr xs \<and> length xs = length bin div 2))"
  using b64ToPcm_odd [OF assms] b64ToPcm_even [OF assms] onmessage_odd [OF assms]
  by blast

theorem malformed_frame_witness:
  "atob ''AA=='' = Inr [char_of (0 :: nat)] \<and> b64ToPcm ''AA=='' = Inl RangeError \<and>
   outputContext (svc active_world) = Some 1 \<and>
   onmessage (play_at 0) 0 (Some ''AA=='') active_world =
     (Some RangeError, active_world\<lparr>trace := trace active_world @ [OnAudioActivity 0 True]\<rparr>) \<and>
   atob (btoa ''abcd'') = Inr ''abcd'' \<and>
   (\<exists>xs. b64ToPcm (btoa ''abcd'') = Inr xs \<and> length xs = 2)"
proof -
  have c: "outputContext (svc active_world) = Some 1"
    by (simp add: active_world_eq)
  have ns: "\<not> stop_during_resume (play_at 0)" "\<not> suspended (play_at 0)"
    by (simp_all add: play_at_def)
  from malformed_frame [OF atob_AA, of active_world 1 "play_at 0" 0] c ns
  have "b64ToPcm ''AA=='' = Inl RangeError"
    "onmessage (play_at 0) 0 (Some ''AA=='') active_world =
     (Some RangeError, active_world\<lparr>trace := trace active_world @ [OnAudioActivity 0 True]\<rparr>)"
    by simp_all
  moreover have "\<exists>xs. b64ToPcm (btoa ''abcd'') = Inr xs \<and> length xs = 2"
  proof -
    from malformed_frame [OF atob_btoa [of "''abcd''"]]
    obtain xs where xs: "b64ToPcm (btoa ''abcd'') = Inr xs" "length xs = length ''abcd'' div 2"
      by auto
    from xs(2) have "length xs = 2" by simp
    with xs(1) show ?thesis by blast
  qed
  ultimately show ?thesis
    using c by (simp add: atob_AA atob_btoa)
qed

section \<open>C4: a failed startSession\<close>






lemma acquired_in_simps [simp]:
  "acquired_in [] = {}"
  "acquired_in (xs @ ys) = acquired_in xs \<union> acquired_in ys"
  "acquired_in (ev # tr) = (case acquired ev of None \<Rightarrow> {} | Some h \<Rightarrow> {h}) \<union> acquired_in tr"
  by (auto simp: acquired_in_def List.map_filter_def split: option.splits)

lemma released_in_simps [simp]:
  "released_in [] = {}"
  "released_in (xs @ ys) = released_in xs \<union> released_in ys"
  "released_in (ev # tr) = (case released ev of None \<Rightarrow> {} | Some h \<Rightarrow> {h}) \<union> released_in tr"
  by (auto simp: released_in_def List.map_filter_def split: option.splits)

lemma release_events_quiet [simp]:
  "acquired_in (release_events s) = {}"
  "filter is_OnError (release_events s) = []"
  by (simp_all add: release_events_def split: option.splits)

lemma release_events_stopped [simp]:
  "release_events (s\<lparr>inputContext := None, outputContext := None, inputSource := None,
                     processor := None, currentStream := None, nextStartTime := t,
                     isConnected := c\<rparr>) = []"
  by (simp add: release_events_def)









section \<open>C5: stopSession during a connection attempt and during playback\<close>

lemma scheduled_release [simp]: "scheduled (release_events s) = []"
  by (simp add: scheduled_def release_events_def List.map_filter_def split: option.splits)



lemma heard_release [simp]: "heard T (release_events s) = []"
  by (simp add: release_events_def split: option.splits)






end
